theory Spec2Isabelle
  imports Complex_Main "HOL-Library.Sublist"
begin

section \<open>Errors\<close>

text \<open>
  The Python exceptions the modelled functions raise. \<open>ValueError\<close> carries its message,
  since \<open>consent_manager.py\<close> tells its failures apart by the message only.
\<close>

datatype error = ValueError string | TypeError | KeyError

definition ConsentInsufficient :: error where
  "ConsentInsufficient = ValueError ''Insufficient consent for system operation''"

definition TokenExpired :: error where
  "TokenExpired = ValueError ''Authentication token has expired''"

definition TokenInvalid :: error where
  "TokenInvalid = ValueError ''Invalid authentication token''"

section \<open>Token authority (\<open>src/auth/consent_manager.py\<close>)\<close>

subsection \<open>Consent flags\<close>

record ConsentFlags =
  audio_recording :: bool
  transcription :: bool
  ai_processing :: bool
  data_storage :: bool
  summary_generation :: bool

text \<open>
  A Python \<open>Dict[str, bool]\<close> is an association list; a lookup takes the first pair
  with the key.
\<close>

definition dict_get :: "(string \<times> 'v) list \<Rightarrow> string \<Rightarrow> 'v \<Rightarrow> 'v" where
  "dict_get d k dflt = (case map_of d k of None \<Rightarrow> dflt | Some v \<Rightarrow> v)"

definition consent_fields :: "string list" where
  "consent_fields =
     [''audio_recording'', ''transcription'', ''ai_processing'', ''data_storage'',
      ''summary_generation'']"

text \<open>
  \<open>ConsentFlags(**consent_flags)\<close>: the dataclass constructor. A key that is no field
  raises \<open>TypeError\<close>; a field that is not given keeps its default \<open>False\<close>.
\<close>

definition ConsentFlags_init :: "(string \<times> bool) list \<Rightarrow> error + ConsentFlags" where
  "ConsentFlags_init d =
     (if \<exists>k \<in> set (map fst d). k \<notin> set consent_fields then Inl TypeError
      else Inr \<lparr> audio_recording = dict_get d ''audio_recording'' False,
                 transcription = dict_get d ''transcription'' False,
                 ai_processing = dict_get d ''ai_processing'' False,
                 data_storage = dict_get d ''data_storage'' False,
                 summary_generation = dict_get d ''summary_generation'' False \<rparr>)"

text \<open>\<open>dataclasses.asdict\<close> on a \<open>ConsentFlags\<close> value.\<close>

definition asdict :: "ConsentFlags \<Rightarrow> (string \<times> bool) list" where
  "asdict c =
     [(''audio_recording'', audio_recording c), (''transcription'', transcription c),
      (''ai_processing'', ai_processing c), (''data_storage'', data_storage c),
      (''summary_generation'', summary_generation c)]"

definition validate_minimum_consent :: "ConsentFlags \<Rightarrow> bool" where
  "validate_minimum_consent c = (audio_recording c \<and> transcription c \<and> ai_processing c)"

subsection \<open>Signed tokens\<close>

text \<open>
  The claims \<open>authenticate_patient\<close> puts into a token. Timestamps are POSIX seconds.
\<close>

record token_payload =
  p_patient_id :: string
  p_session_id :: string
  p_consent :: "(string \<times> bool) list"
  p_iat :: int
  p_exp :: int

text \<open>
  The PyJWT library is not part of the repository. A token is modelled symbolically:
  \<open>Signed k p\<close> is the compact serialisation of the claims \<open>p\<close> with an HS256 signature
  under the key \<open>k\<close>, and \<open>Malformed\<close> is any string that is no well-formed token.
  \<open>jwt_decode\<close> follows \<open>jwt.decode(token, key, algorithms=[...], leeway=...)\<close>: the
  signature is checked first, then \<open>iat\<close> and \<open>exp\<close> against the clock with the leeway.
  \<open>ExpiredSignatureError\<close> is caught before the other \<open>InvalidTokenError\<close>s by
  \<open>verify_token\<close>, so the two are kept apart.
\<close>

datatype token = Signed string token_payload | Malformed

datatype jwt_error = ExpiredSignatureError | InvalidTokenError

definition jwt_encode :: "token_payload \<Rightarrow> string \<Rightarrow> token" where
  "jwt_encode payload key = Signed key payload"

definition jwt_decode :: "token \<Rightarrow> string \<Rightarrow> real \<Rightarrow> real \<Rightarrow> jwt_error + token_payload" where
  "jwt_decode tok key leeway now =
     (case tok of
        Malformed \<Rightarrow> Inl InvalidTokenError
      | Signed k payload \<Rightarrow>
          if k \<noteq> key then Inl InvalidTokenError
          else if of_int (p_iat payload) > now + leeway then Inl InvalidTokenError
          else if of_int (p_exp payload) \<le> now - leeway then Inl ExpiredSignatureError
          else Inr payload)"

subsection \<open>The consent manager\<close>

definition secret_key :: string where
  "secret_key = ''nightingale_jwt_secret_key_change_in_production''"

definition token_expiry_minutes :: int where
  "token_expiry_minutes = 60"

record PatientInfo =
  patient_id :: string
  session_id :: string
  consent :: ConsentFlags
  authenticated_at :: int
  expires_at :: int

text \<open>Python's \<open>int(x)\<close> on a float: truncation towards zero.\<close>

definition py_int :: "real \<Rightarrow> int" where
  "py_int x = (if 0 \<le> x then \<lfloor>x\<rfloor> else \<lceil>x\<rceil>)"

text \<open>
  \<open>_hash_patient_id\<close> is \<open>hashlib.sha256(patient_id.encode()).hexdigest()[:16]\<close>. The
  digest function belongs to the standard library, so it is the parameter
  \<open>sha256_hexdigest\<close> here and in \<open>authenticate_patient\<close>.
\<close>

definition hash_patient_id :: "(string \<Rightarrow> string) \<Rightarrow> string \<Rightarrow> string" where
  "hash_patient_id sha256_hexdigest pid = take 16 (sha256_hexdigest pid)"

text \<open>
  \<open>authenticate_patient\<close>. The clock reading \<open>now\<close> (\<open>time.time()\<close>) and the fresh
  session id \<open>sid\<close> (\<open>uuid.uuid4()\<close>) are inputs. The \<open>except Exception: raise\<close> handler
  re-raises, so an error is returned unchanged.
\<close>

definition authenticate_patient ::
  "(string \<Rightarrow> string) \<Rightarrow> real \<Rightarrow> string \<Rightarrow> string \<Rightarrow> (string \<times> bool) list \<Rightarrow> error + token" where
  "authenticate_patient sha256_hexdigest now sid pid consent_flags =
     (let hashed_patient_id = hash_patient_id sha256_hexdigest pid in
      case ConsentFlags_init consent_flags of
        Inl e \<Rightarrow> Inl e
      | Inr c \<Rightarrow>
          if \<not> validate_minimum_consent c then Inl ConsentInsufficient
          else
            let current_timestamp = py_int now;
                expiry_timestamp = current_timestamp + token_expiry_minutes * 60;
                payload = \<lparr> p_patient_id = hashed_patient_id, p_session_id = sid,
                            p_consent = asdict c, p_iat = current_timestamp,
                            p_exp = expiry_timestamp \<rparr>
            in Inr (jwt_encode payload secret_key))"

text \<open>
  \<open>verify_token\<close> at clock reading \<open>now\<close>. After \<open>jwt.decode\<close> with \<open>leeway=30\<close> the
  function compares the clock with \<open>exp\<close> once more, without leeway; \<open>exp\<close> is skipped
  by that check when it is falsy, that is \<open>0\<close>.
\<close>

definition verify_token :: "real \<Rightarrow> token \<Rightarrow> error + PatientInfo" where
  "verify_token now tok =
     (case jwt_decode tok secret_key 30 now of
        Inl ExpiredSignatureError \<Rightarrow> Inl TokenExpired
      | Inl InvalidTokenError \<Rightarrow> Inl TokenInvalid
      | Inr payload \<Rightarrow>
          if p_exp payload \<noteq> 0 \<and> now > of_int (p_exp payload) then Inl TokenExpired
          else
            (case ConsentFlags_init (p_consent payload) of
               Inl e \<Rightarrow> Inl e
             | Inr c \<Rightarrow>
                 Inr \<lparr> patient_id = p_patient_id payload, session_id = p_session_id payload,
                        consent = c, authenticated_at = p_iat payload,
                        expires_at = p_exp payload \<rparr>))"

definition has_required_consent :: "PatientInfo \<Rightarrow> bool" where
  "has_required_consent patient_info =
     (let c = consent patient_info
      in list_all (\<lambda>b. b) [audio_recording c, transcription c, ai_processing c])"

text \<open>
  \<open>check_operation_consent\<close>: a dictionary from the five operation names to the flags,
  read with \<open>.get(operation, False)\<close>.
\<close>

definition operation_requirements :: "ConsentFlags \<Rightarrow> (string \<times> bool) list" where
  "operation_requirements c =
     [(''record_audio'', audio_recording c), (''transcribe'', transcription c),
      (''ai_process'', ai_processing c), (''store_data'', data_storage c),
      (''generate_summary'', summary_generation c)]"

definition check_operation_consent :: "PatientInfo \<Rightarrow> string \<Rightarrow> bool" where
  "check_operation_consent patient_info operation =
     dict_get (operation_requirements (consent patient_info)) operation False"

definition operation_vocabulary :: "string list" where
  "operation_vocabulary =
     [''record_audio'', ''transcribe'', ''ai_process'', ''store_data'', ''generate_summary'']"

text \<open>A consent dictionary with every flag granted, for the examples.\<close>

definition all_consent :: "(string \<times> bool) list" where
  "all_consent =
     [(''audio_recording'', True), (''transcription'', True), (''ai_processing'', True),
      (''data_storage'', True), (''summary_generation'', True)]"

section \<open>Provenance mapper (\<open>src/provenance/provenance_engine.py\<close>)\<close>

record ProvenanceChunk =
  chunk_id :: string
  chunk_text :: string
  start_time :: real
  end_time :: real
  provenance_refs :: "string list"

text \<open>Python's \<open>str(n)\<close> for a natural number: its decimal digits.\<close>

definition digit_char :: "nat \<Rightarrow> char" where
  "digit_char d = ''0123456789'' ! d"

function str_nat :: "nat \<Rightarrow> string" where
  "str_nat n = (if n < 10 then [digit_char n] else str_nat (n div 10) @ [digit_char (n mod 10)])"
  by pat_completeness auto
termination
  by (relation "measure (\<lambda>n. n)") auto

declare str_nat.simps [simp del]

text \<open>
  \<open>map_provenance\<close>. A timestamp entry is a dictionary with numeric values. The fresh
  \<open>uuid.uuid4()\<close> is the input \<open>cid\<close>; the engine's \<open>provenance_map\<close> is passed in and
  returned with the new chunk stored under \<open>cid\<close>.
\<close>

definition map_provenance ::
  "(string \<rightharpoonup> ProvenanceChunk) \<Rightarrow> string \<Rightarrow> string \<Rightarrow> (string \<times> real) list list \<Rightarrow> string \<Rightarrow>
     ProvenanceChunk \<times> (string \<rightharpoonup> ProvenanceChunk)" where
  "map_provenance provenance_map cid text timestamps sid =
     (let (st, en) =
            (case timestamps of
               [] \<Rightarrow> (0, 30)
             | first_timestamp # _ \<Rightarrow>
                 (dict_get first_timestamp ''start_time'' 0,
                  dict_get first_timestamp ''end_time'' 30));
          refs = map (\<lambda>i. ''S'' @ str_nat (i + 1)) [0..<min 3 (length timestamps)];
          chunk = \<lparr> chunk_id = cid, chunk_text = text, start_time = st, end_time = en,
                    provenance_refs = refs \<rparr>
      in (chunk, provenance_map(cid \<mapsto> chunk)))"

section \<open>Regular expressions (Python's \<open>re\<close>, as far as the redactors use it)\<close>

text \<open>
  A text is a list of code points below 256. The character classes are Python's for
  those code points: \<open>\d\<close> is \<open>0\<close> to \<open>9\<close>, \<open>\s\<close> is the white space of
  \<open>str.isspace\<close>, and a word character (for \<open>\b\<close>) is an alphanumeric or the
  underscore.
\<close>

definition ord :: "char \<Rightarrow> nat" where
  "ord c = of_char c"

definition is_digit :: "char \<Rightarrow> bool" where
  "is_digit c = (48 \<le> ord c \<and> ord c \<le> 57)"

definition is_space :: "char \<Rightarrow> bool" where
  "is_space c =
     (let n = ord c in (9 \<le> n \<and> n \<le> 13) \<or> (28 \<le> n \<and> n \<le> 32) \<or> n = 133 \<or> n = 160)"

definition is_word :: "char \<Rightarrow> bool" where
  "is_word c =
     (let n = ord c in
        (48 \<le> n \<and> n \<le> 57) \<or> (65 \<le> n \<and> n \<le> 90) \<or> n = 95 \<or> (97 \<le> n \<and> n \<le> 122) \<or>
        n = 170 \<or> n = 178 \<or> n = 179 \<or> n = 181 \<or> n = 185 \<or> n = 186 \<or>
        (188 \<le> n \<and> n \<le> 190) \<or> (192 \<le> n \<and> n \<le> 214) \<or> (216 \<le> n \<and> n \<le> 246) \<or>
        248 \<le> n)"

text \<open>
  Under \<open>re.IGNORECASE\<close> a character matches a set when it or its other-case form is
  in the set. All sets of the patterns below are ASCII, so only the ASCII letters have
  another case that matters.
\<close>

definition swapcase :: "char \<Rightarrow> char" where
  "swapcase c =
     (let n = ord c in
        if 65 \<le> n \<and> n \<le> 90 then char_of (n + 32)
        else if 97 \<le> n \<and> n \<le> 122 then char_of (n - 32) else c)"

text \<open>
  The members of a bracket expression: a character \<open>C x\<close>, a range \<open>R x y\<close>, the
  class \<open>\d\<close> and the class \<open>\s\<close>.
\<close>

datatype item = C char | R char char | D | S

fun in_item :: "item \<Rightarrow> char \<Rightarrow> bool" where
  "in_item (C x) c = (c = x)"
| "in_item (R x y) c = (ord x \<le> ord c \<and> ord c \<le> ord y)"
| "in_item D c = is_digit c"
| "in_item S c = is_space c"

definition in_class :: "bool \<Rightarrow> item list \<Rightarrow> char \<Rightarrow> bool" where
  "in_class ic items c =
     (list_ex (\<lambda>i. in_item i c) items \<or> (ic \<and> list_ex (\<lambda>i. in_item i (swapcase c)) items))"

text \<open>
  The pattern syntax the redactors use: the empty pattern, a literal character, a
  bracket expression or class, \<open>\b\<close>, concatenation, ordered alternation \<open>a|b\<close>, the
  greedy option \<open>a?\<close>, and the greedy repetition \<open>{m,n}\<close> of a single-character
  pattern (\<open>+\<close> is \<open>{1,}\<close>, \<open>*\<close> is \<open>{0,}\<close>, \<open>{k}\<close> is \<open>{k,k}\<close>).
\<close>

datatype regex = Eps | Lit char | Cls "item list" | WordB | Seq regex regex | Alt regex regex
  | Opt regex | Rep "item list" nat "nat option"

text \<open>
  A cursor is the character before the position (none at the start of the text) and the
  rest of the text. \<open>\b\<close> holds where exactly one of the two neighbours is a word
  character.
\<close>

type_synonym cursor = "char option \<times> string"

definition at_boundary :: "cursor \<Rightarrow> bool" where
  "at_boundary cur =
     ((case fst cur of None \<Rightarrow> False | Some c \<Rightarrow> is_word c) \<noteq>
      (case snd cur of [] \<Rightarrow> False | c # _ \<Rightarrow> is_word c))"

definition advance :: "cursor \<Rightarrow> nat \<Rightarrow> cursor" where
  "advance cur j = (if j = 0 then cur else (Some (snd cur ! (j - 1)), drop j (snd cur)))"

text \<open>
  The backtracking matcher: \<open>rmatch ic r cur\<close> lists the cursors after every way of
  matching \<open>r\<close> at \<open>cur\<close>, in the order in which the engine tries them (the left
  alternative first, the longest repetition first, the option taken before it is
  skipped). The head of the list is the match the engine reports.
\<close>

fun rmatch :: "bool \<Rightarrow> regex \<Rightarrow> cursor \<Rightarrow> cursor list" where
  "rmatch ic Eps cur = [cur]"
| "rmatch ic (Lit x) cur =
     (case snd cur of [] \<Rightarrow> [] | c # cs \<Rightarrow> if in_class ic [C x] c then [(Some c, cs)] else [])"
| "rmatch ic (Cls items) cur =
     (case snd cur of [] \<Rightarrow> [] | c # cs \<Rightarrow> if in_class ic items c then [(Some c, cs)] else [])"
| "rmatch ic WordB cur = (if at_boundary cur then [cur] else [])"
| "rmatch ic (Seq a b) cur = concat (map (rmatch ic b) (rmatch ic a cur))"
| "rmatch ic (Alt a b) cur = rmatch ic a cur @ rmatch ic b cur"
| "rmatch ic (Opt a) cur = rmatch ic a cur @ [cur]"
| "rmatch ic (Rep items m n) cur =
     (let k = length (takeWhile (in_class ic items) (snd cur));
          k' = (case n of None \<Rightarrow> k | Some b \<Rightarrow> min k b)
      in map (advance cur) (rev [m..<Suc k']))"

definition Str :: "string \<Rightarrow> regex" where
  "Str s = foldr (\<lambda>c r. Seq (Lit c) r) s Eps"

definition seqs :: "regex list \<Rightarrow> regex" where
  "seqs rs = foldr Seq rs Eps"

fun alts :: "regex list \<Rightarrow> regex" where
  "alts [] = Eps"
| "alts [r] = r"
| "alts (r # rs) = Alt r (alts rs)"

record re_match =
  m_group :: string
  m_start :: nat
  m_end :: nat

text \<open>
  \<open>re.finditer\<close>: the text is scanned from the left; at each position the first match
  is taken, and the scan goes on where the match ended (\<open>skip\<close> counts the characters
  of the last match that are still to be passed over). No pattern below matches the
  empty string, so what \<open>re\<close> does after an empty match is never asked for.
\<close>

fun finditer_from ::
  "bool \<Rightarrow> regex \<Rightarrow> char option \<Rightarrow> string \<Rightarrow> nat \<Rightarrow> nat \<Rightarrow> re_match list" where
  "finditer_from ic r p [] skip pos =
     (if skip = 0 \<and> rmatch ic r (p, []) \<noteq> []
      then [\<lparr> m_group = [], m_start = pos, m_end = pos \<rparr>] else [])"
| "finditer_from ic r p (c # cs) skip pos =
     (if 0 < skip then finditer_from ic r (Some c) cs (skip - 1) (pos + 1)
      else
        (case rmatch ic r (p, c # cs) of
           [] \<Rightarrow> finditer_from ic r (Some c) cs 0 (pos + 1)
         | cur # _ \<Rightarrow>
             (let n = length (c # cs) - length (snd cur)
              in \<lparr> m_group = take n (c # cs), m_start = pos, m_end = pos + n \<rparr> #
                 finditer_from ic r (Some c) cs (n - 1) (pos + 1))))"

definition finditer :: "regex \<Rightarrow> string \<Rightarrow> bool \<Rightarrow> re_match list" where
  "finditer pattern s ic = finditer_from ic pattern None s 0 0"

section \<open>PHI redaction (\<open>src/redaction/phi_redactor.py\<close>, \<open>simple_phi_redactor.py\<close>)\<close>

subsection \<open>The patterns\<close>

text \<open>\<^verbatim>\<open>\b(?:\d{3}-?\d{2}-?\d{4})\b\<close>\<close>

definition ssn_pattern :: regex where
  "ssn_pattern = seqs [WordB, Rep [D] 3 (Some 3), Opt (Lit CHR ''-''), Rep [D] 2 (Some 2),
     Opt (Lit CHR ''-''), Rep [D] 4 (Some 4), WordB]"

text \<open>\<^verbatim>\<open>[-.\s]?\<close>\<close>

definition sep :: regex where
  "sep = Opt (Cls [C CHR ''-'', C CHR ''.'', S])"

text \<open>\<^verbatim>\<open>\b(?:\+?1[-.\s]?)?\(?([0-9]{3})\)?[-.\s]?([0-9]{3})[-.\s]?([0-9]{4})\b\<close>\<close>

definition phone_pattern :: regex where
  "phone_pattern = seqs [WordB,
     Opt (seqs [Opt (Lit CHR ''+''), Lit CHR ''1'', sep]),
     Opt (Lit CHR ''(''), Rep [R CHR ''0'' CHR ''9''] 3 (Some 3), Opt (Lit CHR '')''), sep,
     Rep [R CHR ''0'' CHR ''9''] 3 (Some 3), sep, Rep [R CHR ''0'' CHR ''9''] 4 (Some 4), WordB]"

text \<open>\<^verbatim>\<open>\b[A-Za-z0-9._%+-]+@[A-Za-z0-9.-]+\.[A-Z|a-z]{2,}\b\<close>\<close>

definition email_pattern :: regex where
  "email_pattern = seqs [WordB,
     Rep [R CHR ''A'' CHR ''Z'', R CHR ''a'' CHR ''z'', R CHR ''0'' CHR ''9'', C CHR ''.'',
          C CHR ''_'', C CHR ''%'', C CHR ''+'', C CHR ''-''] 1 None,
     Lit CHR ''@'',
     Rep [R CHR ''A'' CHR ''Z'', R CHR ''a'' CHR ''z'', R CHR ''0'' CHR ''9'', C CHR ''.'',
          C CHR ''-''] 1 None,
     Lit CHR ''.'',
     Rep [R CHR ''A'' CHR ''Z'', C CHR ''|'', R CHR ''a'' CHR ''z''] 2 None, WordB]"

text \<open>\<^verbatim>\<open>\b(?:0[1-9]|1[0-2])[/-](?:0[1-9]|[12]\d|3[01])[/-](?:19|20)\d{2}\b\<close>\<close>

definition date_birth_pattern :: regex where
  "date_birth_pattern = seqs [WordB,
     alts [Seq (Lit CHR ''0'') (Cls [R CHR ''1'' CHR ''9'']),
           Seq (Lit CHR ''1'') (Cls [R CHR ''0'' CHR ''2''])],
     Cls [C CHR ''/'', C CHR ''-''],
     alts [Seq (Lit CHR ''0'') (Cls [R CHR ''1'' CHR ''9'']),
           Seq (Cls [C CHR ''1'', C CHR ''2'']) (Cls [D]),
           Seq (Lit CHR ''3'') (Cls [C CHR ''0'', C CHR ''1''])],
     Cls [C CHR ''/'', C CHR ''-''],
     alts [Str ''19'', Str ''20''], Rep [D] 2 (Some 2), WordB]"

text \<open>\<^verbatim>\<open>\b(?:MRN|mrn|Medical Record Number)[\s:]*(\d{6,10})\b\<close>\<close>

definition mrn_pattern :: regex where
  "mrn_pattern = seqs [WordB, alts [Str ''MRN'', Str ''mrn'', Str ''Medical Record Number''],
     Rep [S, C CHR '':''] 0 None, Rep [D] 6 (Some 10), WordB]"

text \<open>
  \<^verbatim>\<open>\b\d+\s+[A-Za-z0-9\s,]+(?:Street|St|Avenue|Ave|Road|Rd|Boulevard|Blvd|Lane|Ln|Drive|Dr|Court|Ct|Place|Pl)\b\<close>
\<close>

definition address_pattern :: regex where
  "address_pattern = seqs [WordB, Rep [D] 1 None, Rep [S] 1 None,
     Rep [R CHR ''A'' CHR ''Z'', R CHR ''a'' CHR ''z'', R CHR ''0'' CHR ''9'', S, C CHR '',''] 1 None,
     alts [Str ''Street'', Str ''St'', Str ''Avenue'', Str ''Ave'', Str ''Road'', Str ''Rd'',
           Str ''Boulevard'', Str ''Blvd'', Str ''Lane'', Str ''Ln'', Str ''Drive'', Str ''Dr'',
           Str ''Court'', Str ''Ct'', Str ''Place'', Str ''Pl''],
     WordB]"

text \<open>
  The name patterns of the simplified redactor:
  \<^verbatim>\<open>\b[A-Z][a-z]+\s+[A-Z][a-z]+\b\<close>, \<^verbatim>\<open>\bDr\.\s+[A-Z][a-z]+\b\<close> and
  \<^verbatim>\<open>\bPatient\s+[A-Z][a-z]+\b\<close>.
\<close>

definition name_pattern_1 :: regex where
  "name_pattern_1 = seqs [WordB, Cls [R CHR ''A'' CHR ''Z''], Rep [R CHR ''a'' CHR ''z''] 1 None,
     Rep [S] 1 None, Cls [R CHR ''A'' CHR ''Z''], Rep [R CHR ''a'' CHR ''z''] 1 None, WordB]"

definition name_pattern_2 :: regex where
  "name_pattern_2 = seqs [WordB, Str ''Dr'', Lit CHR ''.'', Rep [S] 1 None,
     Cls [R CHR ''A'' CHR ''Z''], Rep [R CHR ''a'' CHR ''z''] 1 None, WordB]"

definition name_pattern_3 :: regex where
  "name_pattern_3 = seqs [WordB, Str ''Patient'', Rep [S] 1 None,
     Cls [R CHR ''A'' CHR ''Z''], Rep [R CHR ''a'' CHR ''z''] 1 None, WordB]"

text \<open>The two dictionaries/lists of patterns, in their insertion order.\<close>

definition phi_patterns :: "(string \<times> regex) list" where
  "phi_patterns =
     [(''ssn'', ssn_pattern), (''phone'', phone_pattern), (''email'', email_pattern),
      (''date_birth'', date_birth_pattern), (''mrn'', mrn_pattern), (''address'', address_pattern)]"

definition name_patterns :: "regex list" where
  "name_patterns = [name_pattern_1, name_pattern_2, name_pattern_3]"

text \<open>The replacement tokens of \<open>PHIRedactor\<close> and of \<open>SimplePHIRedactor\<close>.\<close>

definition replacements :: "(string \<times> string) list" where
  "replacements =
     [(''ssn'', ''[SSN_REDACTED]''), (''phone'', ''[PHONE_REDACTED]''),
      (''email'', ''[EMAIL_REDACTED]''), (''date_birth'', ''[DOB_REDACTED]''),
      (''mrn'', ''[MRN_REDACTED]''), (''address'', ''[ADDRESS_REDACTED]''),
      (''person_name'', ''[NAME_REDACTED]''), (''organization'', ''[ORG_REDACTED]''),
      (''location'', ''[LOCATION_REDACTED]''), (''date'', ''[DATE_REDACTED]''),
      (''number'', ''[NUMBER_REDACTED]'')]"

definition simple_replacements :: "(string \<times> string) list" where
  "simple_replacements =
     [(''ssn'', ''[SSN_REDACTED]''), (''phone'', ''[PHONE_REDACTED]''),
      (''email'', ''[EMAIL_REDACTED]''), (''date_birth'', ''[DOB_REDACTED]''),
      (''mrn'', ''[MRN_REDACTED]''), (''address'', ''[ADDRESS_REDACTED]''),
      (''name'', ''[NAME_REDACTED]'')]"

subsection \<open>\<open>str.replace\<close>\<close>

text \<open>
  \<open>s.replace(old, new)\<close> replaces the occurrences of \<open>old\<close> found from the left,
  each search starting after the previous occurrence. With an empty \<open>old\<close>, \<open>new\<close>
  is put before every character and at the end.
\<close>

function str_replace_from :: "string \<Rightarrow> string \<Rightarrow> string \<Rightarrow> string" where
  "str_replace_from old new s =
     (if s = [] \<or> old = [] then s
      else if prefix old s then new @ str_replace_from old new (drop (length old) s)
      else hd s # str_replace_from old new (tl s))"
  by pat_completeness auto
termination
  by (relation "measure (\<lambda>(old, new, s). length s)") auto

declare str_replace_from.simps [simp del]

definition str_replace :: "string \<Rightarrow> string \<Rightarrow> string \<Rightarrow> string" where
  "str_replace s old new =
     (if old = [] then new @ concat (map (\<lambda>c. c # new) s) else str_replace_from old new s)"

subsection \<open>Detection and redaction\<close>

text \<open>
  A detection dictionary. Its key \<open>method\<close> is the field \<open>det_method\<close> and its key
  \<open>type\<close> the field \<open>phi_type\<close>.
\<close>

record detection =
  phi_type :: string
  original :: string
  replacement :: string
  start_pos :: nat
  end_pos :: nat
  det_method :: string

record RedactionResult =
  original_text :: string
  redacted_text :: string
  detected_phi :: "detection list"
  confidence_score :: real

text \<open>
  \<open>_detect_patterns\<close>, with the redactor's replacement dictionary as \<open>repl\<close>: every
  pattern in turn, case-insensitively, every match a detection.
\<close>

definition detect_patterns_with :: "(string \<times> string) list \<Rightarrow> string \<Rightarrow> detection list" where
  "detect_patterns_with repl text =
     concat (map (\<lambda>(ty, pattern).
        map (\<lambda>m. \<lparr> phi_type = ty, original = m_group m,
                    replacement = dict_get repl ty ''[PHI_REDACTED]'',
                    start_pos = m_start m, end_pos = m_end m, det_method = ''regex'' \<rparr>)
          (finditer pattern text True)) phi_patterns)"

definition detect_patterns :: "string \<Rightarrow> detection list" where
  "detect_patterns text = detect_patterns_with replacements text"

definition simple_detect_patterns :: "string \<Rightarrow> detection list" where
  "simple_detect_patterns text = detect_patterns_with simple_replacements text"

text \<open>\<open>PHIRedactor._detect_entities\<close>: without spaCy it returns the empty list.\<close>

definition detect_entities :: "string \<Rightarrow> detection list" where
  "detect_entities text = []"

text \<open>
  \<open>str.lower\<close> on a code point below 256, and \<open>SimplePHIRedactor._is_medical_term\<close>.
\<close>

definition lower_char :: "char \<Rightarrow> char" where
  "lower_char c =
     (let n = ord c in
        if (65 \<le> n \<and> n \<le> 90) \<or> (192 \<le> n \<and> n \<le> 222 \<and> n \<noteq> 215) then char_of (n + 32)
        else c)"

definition medical_terms :: "string list" where
  "medical_terms =
     [''patient reports'', ''doctor smith'', ''nurse jones'', ''headache pain'',
      ''blood pressure'', ''heart rate'', ''pain level'', ''medical history'']"

definition is_medical_term :: "string \<Rightarrow> bool" where
  "is_medical_term text = (map lower_char text \<in> set medical_terms)"

text \<open>\<open>SimplePHIRedactor._detect_names\<close>: the name patterns, case-sensitively.\<close>

definition detect_names :: "string \<Rightarrow> detection list" where
  "detect_names text =
     concat (map (\<lambda>pattern.
        map (\<lambda>m. \<lparr> phi_type = ''name'', original = m_group m,
                    replacement = ''[NAME_REDACTED]'',
                    start_pos = m_start m, end_pos = m_end m, det_method = ''name_pattern'' \<rparr>)
          (filter (\<lambda>m. \<not> is_medical_term (m_group m)) (finditer pattern text False)))
        name_patterns)"

text \<open>
  The loop \<open>for detection in ...: redacted_text = redacted_text.replace(original,
  replacement)\<close>.
\<close>

definition apply_redactions :: "detection list \<Rightarrow> string \<Rightarrow> string" where
  "apply_redactions ds text = foldl (\<lambda>t d. str_replace t (original d) (replacement d)) text ds"

text \<open>
  \<open>_calculate_confidence\<close>. The score is a Python float; it is a real number here, so
  the arithmetic is exact.
\<close>

definition calculate_confidence :: "detection list \<Rightarrow> string \<Rightarrow> real" where
  "calculate_confidence detections text =
     (if detections = [] then 1
      else
        let regex_detections = length (filter (\<lambda>d. det_method d = ''regex'') detections);
            nlp_detections = length (filter (\<lambda>d. det_method d = ''nlp'') detections)
        in min 1 ((real regex_detections * (9 / 10) + real nlp_detections * (7 / 10)) /
                  real (length detections)))"

text \<open>The result of the \<open>except Exception\<close> branch.\<close>

definition redaction_failed :: "string \<Rightarrow> RedactionResult" where
  "redaction_failed text =
     \<lparr> original_text = text, redacted_text = ''[TEXT_REDACTION_FAILED]'', detected_phi = [],
       confidence_score = 0 \<rparr>"

text \<open>
  \<open>PHIRedactor.redact_phi\<close>. The body of the \<open>try\<close> calls two detectors; so that a
  detector that raises can be spoken of, \<open>redact_phi_with\<close> takes them as arguments
  that return an error or the detections, and \<open>redact_phi\<close> is the function with the
  redactor's own detectors, which return normally on every text.
\<close>

definition redact_phi_with ::
  "(string \<Rightarrow> error + detection list) \<Rightarrow> (string \<Rightarrow> error + detection list) \<Rightarrow> string \<Rightarrow>
     RedactionResult" where
  "redact_phi_with detect_p detect_e text =
     (case detect_p text of
        Inl e \<Rightarrow> redaction_failed text
      | Inr pattern_detections \<Rightarrow>
          (let redacted = apply_redactions pattern_detections text in
           case detect_e redacted of
             Inl e \<Rightarrow> redaction_failed text
           | Inr entity_detections \<Rightarrow>
               (let redacted' = apply_redactions entity_detections redacted;
                    detected = pattern_detections @ entity_detections;
                    confidence = calculate_confidence detected text
                in \<lparr> original_text = text, redacted_text = redacted', detected_phi = detected,
                     confidence_score = confidence \<rparr>)))"

definition redact_phi :: "string \<Rightarrow> RedactionResult" where
  "redact_phi text =
     redact_phi_with (\<lambda>t. Inr (detect_patterns t)) (\<lambda>t. Inr (detect_entities t)) text"

text \<open>
  \<open>SimplePHIRedactor.redact_phi\<close>, in the same way. Its confidence is
  \<open>1.0 if detected_phi else 1.0\<close>.
\<close>

definition simple_redact_phi_with ::
  "(string \<Rightarrow> error + detection list) \<Rightarrow> (string \<Rightarrow> error + detection list) \<Rightarrow> string \<Rightarrow>
     RedactionResult" where
  "simple_redact_phi_with detect_p detect_n text =
     (case detect_p text of
        Inl e \<Rightarrow> redaction_failed text
      | Inr pattern_detections \<Rightarrow>
          (let redacted = apply_redactions pattern_detections text in
           case detect_n redacted of
             Inl e \<Rightarrow> redaction_failed text
           | Inr name_detections \<Rightarrow>
               (let redacted' = apply_redactions name_detections redacted;
                    detected = pattern_detections @ name_detections;
                    confidence = (if detected \<noteq> [] then 1 else 1)
                in \<lparr> original_text = text, redacted_text = redacted', detected_phi = detected,
                     confidence_score = confidence \<rparr>)))"

definition simple_redact_phi :: "string \<Rightarrow> RedactionResult" where
  "simple_redact_phi text =
     simple_redact_phi_with (\<lambda>t. Inr (simple_detect_patterns t)) (\<lambda>t. Inr (detect_names t)) text"

text \<open>
  \<open>validate_redaction\<close> of both redactors: detection is run again on the redacted
  text. \<open>redact_phi\<close> catches every exception itself, so the \<open>except\<close> branch of
  \<open>validate_redaction\<close> is not reached.
\<close>

definition validate_redaction :: "string \<Rightarrow> string \<Rightarrow> bool" where
  "validate_redaction orig redacted = (length (detected_phi (redact_phi redacted)) = 0)"

definition simple_validate_redaction :: "string \<Rightarrow> string \<Rightarrow> bool" where
  "simple_validate_redaction orig redacted =
     (length (detected_phi (simple_redact_phi redacted)) = 0)"

section \<open>Notions for the proofs about redaction\<close>

text \<open>
  A witness character is a digit, \<open>@\<close> or a lower-case ASCII letter: a character that
  no replacement token contains. A string is clean when it has neither square bracket
  and at least one witness character; every string a pattern matches is clean. A token
  is a bracketed string without witness characters.
\<close>

definition witness_char :: "char \<Rightarrow> bool" where
  "witness_char c = (is_digit c \<or> c = CHR ''@'' \<or> (97 \<le> ord c \<and> ord c \<le> 122))"

definition clean :: "string \<Rightarrow> bool" where
  "clean a = (CHR ''['' \<notin> set a \<and> CHR '']'' \<notin> set a \<and> list_ex witness_char a)"

definition is_token :: "string \<Rightarrow> bool" where
  "is_token new =
     (2 \<le> length new \<and> hd new = CHR ''['' \<and> last new = CHR '']'' \<and>
      \<not> list_ex witness_char (butlast (tl new)))"

text \<open>
  \<open>avoids ic x r\<close>: no match of \<open>r\<close> contains the character \<open>x\<close>.
  \<open>consumes ic r\<close>: every match of \<open>r\<close> contains a witness character.
  Both are sufficient syntactic conditions.
\<close>

fun avoids :: "bool \<Rightarrow> char \<Rightarrow> regex \<Rightarrow> bool" where
  "avoids ic x Eps = True"
| "avoids ic x (Lit y) = (\<not> in_class ic [C y] x)"
| "avoids ic x (Cls items) = (\<not> in_class ic items x)"
| "avoids ic x WordB = True"
| "avoids ic x (Seq a b) = (avoids ic x a \<and> avoids ic x b)"
| "avoids ic x (Alt a b) = (avoids ic x a \<and> avoids ic x b)"
| "avoids ic x (Opt a) = avoids ic x a"
| "avoids ic x (Rep items m n) = (\<not> in_class ic items x)"

definition witness_class :: "bool \<Rightarrow> item list \<Rightarrow> bool" where
  "witness_class ic items = (\<forall>c. in_class ic items c \<longrightarrow> witness_char c)"

fun consumes :: "bool \<Rightarrow> regex \<Rightarrow> bool" where
  "consumes ic Eps = False"
| "consumes ic (Lit y) = witness_class ic [C y]"
| "consumes ic (Cls items) = witness_class ic items"
| "consumes ic WordB = False"
| "consumes ic (Seq a b) = (consumes ic a \<or> consumes ic b)"
| "consumes ic (Alt a b) = (consumes ic a \<and> consumes ic b)"
| "consumes ic (Opt a) = False"
| "consumes ic (Rep items m n) = (0 < m \<and> witness_class ic items)"

text \<open>A detection is well formed when its original is clean and its replacement a token.\<close>

definition well_formed :: "detection \<Rightarrow> bool" where
  "well_formed d = (clean (original d) \<and> is_token (replacement d))"

section \<open>Properties of the token authority\<close>

lemma ConsentFlags_init_asdict: "ConsentFlags_init (asdict c) = Inr c"
  by (simp add: ConsentFlags_init_def asdict_def consent_fields_def dict_get_def)

text \<open>
  C5. For a consent dictionary that the constructor accepts as the flags \<open>c\<close>,
  \<open>authenticate_patient\<close> returns a token when recording, transcription and AI
  processing are all true, and fails with the insufficient-consent error when one of the
  three is false; the storage and summary flags play no part.
\<close>

theorem authenticate_patient_minimum_consent:
  assumes "ConsentFlags_init d = Inr c"
  shows "if audio_recording c \<and> transcription c \<and> ai_processing c
         then \<exists>tok. authenticate_patient h now sid pid d = Inr tok
         else authenticate_patient h now sid pid d = Inl ConsentInsufficient"
  using assms
  by (auto simp: authenticate_patient_def validate_minimum_consent_def Let_def)

theorem authenticate_patient_minimum_consent_witness:
  "ConsentFlags_init [(''audio_recording'', True), (''transcription'', False),
       (''ai_processing'', True), (''data_storage'', True), (''summary_generation'', True)] =
     Inr \<lparr> audio_recording = True, transcription = False, ai_processing = True,
           data_storage = True, summary_generation = True \<rparr> \<and>
   authenticate_patient (\<lambda>s. s) 1000 ''session'' ''patient''
     [(''audio_recording'', True), (''transcription'', False),
      (''ai_processing'', True), (''data_storage'', True), (''summary_generation'', True)] =
     Inl ConsentInsufficient"
proof -
  have init: "ConsentFlags_init [(''audio_recording'', True), (''transcription'', False),
       (''ai_processing'', True), (''data_storage'', True), (''summary_generation'', True)] =
     Inr \<lparr> audio_recording = True, transcription = False, ai_processing = True,
           data_storage = True, summary_generation = True \<rparr>"
    by (simp add: ConsentFlags_init_def consent_fields_def dict_get_def)
  from authenticate_patient_minimum_consent [OF init, of "\<lambda>s. s" 1000 "''session''" "''patient''"]
  show ?thesis using init by simp
qed

text \<open>
  C9. An operation name outside the five-word vocabulary is denied by
  \<open>check_operation_consent\<close>, whatever the consent flags are.
\<close>

theorem check_operation_consent_unknown:
  assumes "operation \<notin> set operation_vocabulary"
  shows "check_operation_consent patient_info operation = False"
  using assms
  by (simp add: check_operation_consent_def operation_requirements_def
      operation_vocabulary_def dict_get_def)

theorem check_operation_consent_unknown_witness:
  "''delete_data'' \<notin> set operation_vocabulary \<and>
   check_operation_consent
     \<lparr> patient_id = ''p'', session_id = ''s'',
       consent = \<lparr> audio_recording = True, transcription = True, ai_processing = True,
                   data_storage = True, summary_generation = True \<rparr>,
       authenticated_at = 0, expires_at = 3600 \<rparr> ''delete_data'' = False"
proof -
  have out: "''delete_data'' \<notin> set operation_vocabulary"
    by (simp add: operation_vocabulary_def)
  from check_operation_consent_unknown [OF out] show ?thesis using out by simp
qed

subsection \<open>Expiry\<close>

text \<open>
  A token issued at clock reading \<open>t0\<close> carries \<open>iat = int(t0)\<close> and
  \<open>exp = iat + 3600\<close>.
\<close>

lemma authenticate_patient_token:
  assumes "authenticate_patient h t0 sid pid d = Inr tok"
  shows "\<exists>c. ConsentFlags_init d = Inr c \<and> validate_minimum_consent c \<and>
           tok = Signed secret_key
             \<lparr> p_patient_id = hash_patient_id h pid, p_session_id = sid, p_consent = asdict c,
               p_iat = py_int t0, p_exp = py_int t0 + 3600 \<rparr>"
  using assms
  by (auto simp: authenticate_patient_def Let_def jwt_encode_def token_expiry_minutes_def
      split: sum.splits if_splits)

lemma verify_token_Signed:
  "verify_token now (Signed secret_key
      \<lparr> p_patient_id = hp, p_session_id = sid, p_consent = asdict c, p_iat = i, p_exp = e \<rparr>) =
     (if of_int i > now + 30 then Inl TokenInvalid
      else if of_int e \<le> now - 30 then Inl TokenExpired
      else if e \<noteq> 0 \<and> now > of_int e then Inl TokenExpired
      else Inr \<lparr> patient_id = hp, session_id = sid, consent = c, authenticated_at = i,
                 expires_at = e \<rparr>)"
  by (simp add: verify_token_def jwt_decode_def ConsentFlags_init_asdict)

text \<open>
  The token verifies up to and including its expiry second, so one second before expiry
  in particular.
\<close>

lemma verify_token_before_expiry:
  assumes "authenticate_patient h t0 sid pid d = Inr tok" and "0 \<le> t0"
    and "t0 \<le> now" and "now \<le> of_int (py_int t0 + 3600)"
  shows "\<exists>info. verify_token now tok = Inr info"
proof -
  from authenticate_patient_token [OF assms(1)] obtain c where
    tok: "tok = Signed secret_key
             \<lparr> p_patient_id = hash_patient_id h pid, p_session_id = sid, p_consent = asdict c,
               p_iat = py_int t0, p_exp = py_int t0 + 3600 \<rparr>"
    by blast
  have "of_int (py_int t0) \<le> t0" using assms(2) by (simp add: py_int_def)
  with assms(3,4) show ?thesis
    unfolding tok verify_token_Signed by auto
qed

text \<open>
  Any clock reading after \<open>exp\<close> is rejected as expired: the comparison that follows
  \<open>jwt.decode\<close> uses no leeway.
\<close>

lemma verify_token_after_expiry:
  assumes "authenticate_patient h t0 sid pid d = Inr tok" and "0 \<le> t0"
    and "of_int (py_int t0 + 3600) < now"
  shows "verify_token now tok = Inl TokenExpired"
proof -
  from authenticate_patient_token [OF assms(1)] obtain c where
    tok: "tok = Signed secret_key
             \<lparr> p_patient_id = hash_patient_id h pid, p_session_id = sid, p_consent = asdict c,
               p_iat = py_int t0, p_exp = py_int t0 + 3600 \<rparr>"
    by blast
  have "of_int (py_int t0) \<le> t0" "0 \<le> py_int t0" using assms(2) by (simp_all add: py_int_def)
  with assms(3) show ?thesis
    unfolding tok verify_token_Signed by auto
qed

lemma authenticate_all_consent:
  "authenticate_patient h 1000 sid pid all_consent =
     Inr (Signed secret_key
       \<lparr> p_patient_id = hash_patient_id h pid, p_session_id = sid,
         p_consent = all_consent, p_iat = 1000, p_exp = 4600 \<rparr>)"
  by (simp add: authenticate_patient_def all_consent_def ConsentFlags_init_def
      consent_fields_def dict_get_def validate_minimum_consent_def asdict_def Let_def
      py_int_def token_expiry_minutes_def jwt_encode_def)

text \<open>
  C3. A token issued at second 1000 expires at second 4600. One second before, at 4599,
  it verifies; at 4631, beyond the leeway, it is rejected as expired; but at 4601, one
  second past expiry and well inside the 30 second leeway, it is rejected as expired too.
\<close>

theorem verify_token_no_leeway_past_expiry:
  "(\<exists>tok. authenticate_patient h 1000 sid pid all_consent = Inr tok \<and>
      (\<exists>info. verify_token 4599 tok = Inr info) \<and>
      verify_token 4601 tok = Inl TokenExpired \<and>
      verify_token 4631 tok = Inl TokenExpired)"
proof -
  have c: "all_consent = asdict \<lparr> audio_recording = True, transcription = True,
      ai_processing = True, data_storage = True, summary_generation = True \<rparr>"
    by (simp add: all_consent_def asdict_def)
  show ?thesis
    unfolding authenticate_all_consent
    by (simp add: c verify_token_Signed)
qed

subsection \<open>Issue, then verify\<close>

text \<open>
  A token verified while it is valid gives back the consent flags it was issued with, and
  carries the truncated digest of the patient identifier.
\<close>

lemma verify_token_authenticate_patient:
  assumes "authenticate_patient h t0 sid pid d = Inr tok" and "0 \<le> t0"
    and "t0 \<le> now" and "now \<le> of_int (py_int t0 + 3600)"
  shows "\<exists>info c. verify_token now tok = Inr info \<and> ConsentFlags_init d = Inr c \<and>
           consent info = c \<and> patient_id info = hash_patient_id h pid \<and> session_id info = sid"
proof -
  from authenticate_patient_token [OF assms(1)] obtain c where
    c: "ConsentFlags_init d = Inr c" and
    tok: "tok = Signed secret_key
             \<lparr> p_patient_id = hash_patient_id h pid, p_session_id = sid, p_consent = asdict c,
               p_iat = py_int t0, p_exp = py_int t0 + 3600 \<rparr>"
    by blast
  have "of_int (py_int t0) \<le> t0" using assms(2) by (simp add: py_int_def)
  with assms(3,4) c show ?thesis
    unfolding tok verify_token_Signed by auto
qed

text \<open>
  The embedded identifier has the length of the digest prefix, so it differs from every
  raw identifier of another length. Whether some identifier of exactly sixteen
  characters is its own truncated SHA-256 digest is not decided here.
\<close>

lemma hash_patient_id_differs:
  assumes "16 \<le> length (h pid)" and "length pid \<noteq> 16"
  shows "hash_patient_id h pid \<noteq> pid"
proof
  assume "hash_patient_id h pid = pid"
  then have "length (take 16 (h pid)) = length pid"
    by (simp add: hash_patient_id_def)
  with assms show False by simp
qed

section \<open>Properties of the provenance mapper\<close>

lemma str_nat_small:
  "str_nat (Suc 0) = ''1''" "str_nat (Suc (Suc 0)) = ''2''" "str_nat (Suc (Suc (Suc 0))) = ''3''"
  by (simp_all add: str_nat.simps digit_char_def)

lemma map_upt_min3: "map f [0..<min 3 n] = take (min 3 n) [f 0, f (Suc 0), f (Suc (Suc 0))]"
proof -
  consider "n = 0" | "n = Suc 0" | "n = Suc (Suc 0)" | "3 \<le> n"
    by linarith
  then show ?thesis
  proof cases
    case 4
    then have "min 3 n = Suc (Suc (Suc 0))" by simp
    then show ?thesis by (simp add: upt_rec)
  qed (simp_all add: upt_rec)
qed

lemma map_provenance_refs:
  "provenance_refs (fst (map_provenance pm cid text ts sid)) =
     take (min 3 (length ts)) [''S1'', ''S2'', ''S3'']"
proof -
  have "provenance_refs (fst (map_provenance pm cid text ts sid)) =
          map (\<lambda>i. ''S'' @ str_nat (i + 1)) [0..<min 3 (length ts)]"
    by (simp add: map_provenance_def Let_def case_prod_beta del: upt.simps)
  also have "\<dots> = take (min 3 (length ts)) [''S1'', ''S2'', ''S3'']"
    unfolding map_upt_min3 by (simp add: str_nat_small)
  finally show ?thesis .
qed

text \<open>
  C8. With no timestamps the chunk carries the nominal window 0.0 to 30.0; otherwise its
  start and end are read from the first timestamp entry (with the defaults 0.0 and 30.0
  for a key the entry lacks); and the references are \<open>S1\<close>, ..., \<open>Sk\<close> in order, where
  \<open>k\<close> is the smaller of 3 and the number of timestamp entries.
\<close>

theorem map_provenance_span:
  "(timestamps = [] \<longrightarrow>
      start_time (fst (map_provenance pm cid text timestamps sid)) = 0 \<and>
      end_time (fst (map_provenance pm cid text timestamps sid)) = 30) \<and>
   (\<forall>first_ts rest. timestamps = first_ts # rest \<longrightarrow>
      start_time (fst (map_provenance pm cid text timestamps sid)) =
        dict_get first_ts ''start_time'' 0 \<and>
      end_time (fst (map_provenance pm cid text timestamps sid)) =
        dict_get first_ts ''end_time'' 30) \<and>
   provenance_refs (fst (map_provenance pm cid text timestamps sid)) =
     take (min 3 (length timestamps)) [''S1'', ''S2'', ''S3'']"
proof -
  have "timestamps = [] \<longrightarrow>
      start_time (fst (map_provenance pm cid text timestamps sid)) = 0 \<and>
      end_time (fst (map_provenance pm cid text timestamps sid)) = 30"
    by (simp add: map_provenance_def Let_def del: upt.simps)
  moreover have "\<forall>first_ts rest. timestamps = first_ts # rest \<longrightarrow>
      start_time (fst (map_provenance pm cid text timestamps sid)) =
        dict_get first_ts ''start_time'' 0 \<and>
      end_time (fst (map_provenance pm cid text timestamps sid)) =
        dict_get first_ts ''end_time'' 30"
    by (simp add: map_provenance_def Let_def del: upt.simps)
  ultimately show ?thesis
    using map_provenance_refs by blast
qed

theorem map_provenance_span_witness:
  "start_time (fst (map_provenance Map.empty ''c1'' ''text''
      [[(''start_time'', 5), (''end_time'', 12)], [(''start_time'', 12)], [], []] ''s'')) = 5 \<and>
   end_time (fst (map_provenance Map.empty ''c1'' ''text''
      [[(''start_time'', 5), (''end_time'', 12)], [(''start_time'', 12)], [], []] ''s'')) = 12 \<and>
   provenance_refs (fst (map_provenance Map.empty ''c1'' ''text''
      [[(''start_time'', 5), (''end_time'', 12)], [(''start_time'', 12)], [], []] ''s'')) =
     [''S1'', ''S2'', ''S3''] \<and>
   start_time (fst (map_provenance Map.empty ''c1'' ''text'' [] ''s'')) = 0 \<and>
   end_time (fst (map_provenance Map.empty ''c1'' ''text'' [] ''s'')) = 30 \<and>
   provenance_refs (fst (map_provenance Map.empty ''c1'' ''text'' [] ''s'')) = []"
  using map_provenance_span [of "[[(''start_time'', 5), (''end_time'', 12)], [(''start_time'', 12)], [], []]"
      Map.empty "''c1''" "''text''" "''s''"]
    map_provenance_span [of "[]" Map.empty "''c1''" "''text''" "''s''"]
  by (simp add: dict_get_def)


section \<open>Properties of the redactors\<close>

subsection \<open>Validation and failure\<close>

text \<open>
  C10. \<open>validate_redaction\<close>, in both redactors, gives the same answer for any two
  original texts and the same redacted text.
\<close>

theorem validate_redaction_ignores_original:
  "validate_redaction original1 redacted = validate_redaction original2 redacted \<and>
   simple_validate_redaction original1 redacted = simple_validate_redaction original2 redacted"
  by (simp add: validate_redaction_def simple_validate_redaction_def)

text \<open>
  C2. When the first detector raises, or the first returns and the second raises, both
  redactors return the failure result: the redacted text is the marker
  \<open>[TEXT_REDACTION_FAILED]\<close> and no detection is listed, whatever the first detector
  had already found.
\<close>

theorem redact_phi_fail_closed:
  assumes "detect_p text = Inl e \<or>
           (\<exists>ds. detect_p text = Inr ds \<and> detect_e (apply_redactions ds text) = Inl e)"
  shows "redacted_text (redact_phi_with detect_p detect_e text) = ''[TEXT_REDACTION_FAILED]'' \<and>
         detected_phi (redact_phi_with detect_p detect_e text) = [] \<and>
         redacted_text (simple_redact_phi_with detect_p detect_e text) = ''[TEXT_REDACTION_FAILED]'' \<and>
         detected_phi (simple_redact_phi_with detect_p detect_e text) = []"
  using assms
  by (auto simp: redact_phi_with_def simple_redact_phi_with_def redaction_failed_def Let_def)

theorem redact_phi_fail_closed_witness:
  "redacted_text (redact_phi_with (\<lambda>t. Inr (detect_patterns t)) (\<lambda>t. Inl TypeError)
      ''SSN 123-45-6789'') = ''[TEXT_REDACTION_FAILED]'' \<and>
   detected_phi (redact_phi_with (\<lambda>t. Inr (detect_patterns t)) (\<lambda>t. Inl TypeError)
      ''SSN 123-45-6789'') = [] \<and>
   redacted_text (simple_redact_phi_with (\<lambda>t. Inr (detect_patterns t)) (\<lambda>t. Inl TypeError)
      ''SSN 123-45-6789'') = ''[TEXT_REDACTION_FAILED]'' \<and>
   detected_phi (simple_redact_phi_with (\<lambda>t. Inr (detect_patterns t)) (\<lambda>t. Inl TypeError)
      ''SSN 123-45-6789'') = []"
  using redact_phi_fail_closed [of "\<lambda>t. Inr (detect_patterns t)" "''SSN 123-45-6789''" TypeError
      "\<lambda>t. Inl TypeError"]
  by simp

subsection \<open>The SSN scenario\<close>

lemma detect_patterns_ssn_scenario:
  "detect_patterns ''SSN 123-45-6789, patient reports headache 7/10'' =
     [\<lparr> phi_type = ''ssn'', original = ''123-45-6789'', replacement = ''[SSN_REDACTED]'',
        start_pos = 4, end_pos = 15, det_method = ''regex'' \<rparr>]"
  by code_simp

lemma str_replace_ssn_scenario:
  "str_replace ''SSN 123-45-6789, patient reports headache 7/10'' ''123-45-6789''
     ''[SSN_REDACTED]'' = ''SSN [SSN_REDACTED], patient reports headache 7/10''"
  by code_simp

lemma redact_phi_ssn_scenario:
  "redact_phi ''SSN 123-45-6789, patient reports headache 7/10'' =
     \<lparr> original_text = ''SSN 123-45-6789, patient reports headache 7/10'',
       redacted_text = ''SSN [SSN_REDACTED], patient reports headache 7/10'',
       detected_phi =
         [\<lparr> phi_type = ''ssn'', original = ''123-45-6789'', replacement = ''[SSN_REDACTED]'',
            start_pos = 4, end_pos = 15, det_method = ''regex'' \<rparr>],
       confidence_score = 9 / 10 \<rparr>"
  unfolding redact_phi_def redact_phi_with_def
  by (simp add: detect_patterns_ssn_scenario detect_entities_def apply_redactions_def
      str_replace_ssn_scenario calculate_confidence_def Let_def)

text \<open>
  C6. On the text \<open>SSN 123-45-6789, patient reports headache 7/10\<close> the redactor
  returns \<open>SSN [SSN_REDACTED], patient reports headache 7/10\<close>: the pattern matches the
  number only, so the label \<open>SSN\<close> before it stays. There is exactly one detection, of
  type \<open>ssn\<close>.
\<close>

theorem redact_phi_ssn_example:
  "redacted_text (redact_phi ''SSN 123-45-6789, patient reports headache 7/10'') =
     ''SSN [SSN_REDACTED], patient reports headache 7/10'' \<and>
   map phi_type (detected_phi (redact_phi ''SSN 123-45-6789, patient reports headache 7/10'')) =
     [''ssn'']"
  by (simp add: redact_phi_ssn_scenario)

theorem redact_phi_ssn_example_counterexample:
  "redacted_text (redact_phi ''SSN 123-45-6789, patient reports headache 7/10'') \<noteq>
     ''[SSN_REDACTED], patient reports headache 7/10''"
  by (simp add: redact_phi_ssn_scenario)

subsection \<open>Confidence\<close>










text \<open>
  On \<open>John Smith 123-45-6789\<close> the simplified redactor finds the number by a pattern
  and the name by the name heuristic, and still reports the confidence 1, not a ratio
  in which the heuristic detection weighs less.
\<close>

lemma simple_redact_phi_name_and_ssn:
  "simple_redact_phi ''John Smith 123-45-6789'' =
     \<lparr> original_text = ''John Smith 123-45-6789'',
       redacted_text = ''[NAME_REDACTED] [SSN_REDACTED]'',
       detected_phi =
         [\<lparr> phi_type = ''ssn'', original = ''123-45-6789'', replacement = ''[SSN_REDACTED]'',
            start_pos = 11, end_pos = 22, det_method = ''regex'' \<rparr>,
          \<lparr> phi_type = ''name'', original = ''John Smith'', replacement = ''[NAME_REDACTED]'',
            start_pos = 0, end_pos = 10, det_method = ''name_pattern'' \<rparr>],
       confidence_score = 1 \<rparr>"
proof -
  have p: "simple_detect_patterns ''John Smith 123-45-6789'' =
     [\<lparr> phi_type = ''ssn'', original = ''123-45-6789'', replacement = ''[SSN_REDACTED]'',
        start_pos = 11, end_pos = 22, det_method = ''regex'' \<rparr>]"
    by code_simp
  have r: "str_replace ''John Smith 123-45-6789'' ''123-45-6789'' ''[SSN_REDACTED]'' =
     ''John Smith [SSN_REDACTED]''"
    by code_simp
  have n: "detect_names ''John Smith [SSN_REDACTED]'' =
     [\<lparr> phi_type = ''name'', original = ''John Smith'', replacement = ''[NAME_REDACTED]'',
        start_pos = 0, end_pos = 10, det_method = ''name_pattern'' \<rparr>]"
    by code_simp
  have r': "str_replace ''John Smith [SSN_REDACTED]'' ''John Smith'' ''[NAME_REDACTED]'' =
     ''[NAME_REDACTED] [SSN_REDACTED]''"
    by code_simp
  show ?thesis
    unfolding simple_redact_phi_def simple_redact_phi_with_def
    by (simp add: p r n r' apply_redactions_def Let_def)
qed


subsection \<open>Replacing a clean string by a token\<close>

lemma clean_iff:
  "clean a = (CHR ''['' \<notin> set a \<and> CHR '']'' \<notin> set a \<and> (\<exists>c \<in> set a. witness_char c))"
  by (simp add: clean_def list_ex_iff)

lemma clean_nonempty: "clean a \<Longrightarrow> a \<noteq> []"
  by (auto simp: clean_iff)

lemma is_tokenD:
  assumes "is_token new"
  shows "\<exists>body. new = CHR ''['' # body @ [CHR '']''] \<and> (\<forall>c \<in> set body. \<not> witness_char c)"
proof -
  from assms obtain x rest where new: "new = x # rest" and rest: "rest \<noteq> []"
    by (cases new; cases "tl new") (auto simp: is_token_def)
  from assms new rest have "x = CHR ''[''" "last rest = CHR '']''"
    "\<forall>c \<in> set (butlast rest). \<not> witness_char c"
    by (auto simp: is_token_def list_ex_iff)
  moreover from rest have "rest = butlast rest @ [last rest]" by simp
  ultimately show ?thesis
    using new by (intro exI [of _ "butlast rest"]) auto
qed

lemma sublist_skip_char:
  assumes "x \<notin> set a" and "a \<noteq> []" and "sublist a (x # t)"
  shows "sublist a t"
proof -
  from assms(3) have "prefix a (x # t) \<or> sublist a t"
    by (simp add: sublist_Cons_right)
  moreover have "\<not> prefix a (x # t)"
    using assms(1,2) by (cases a) auto
  ultimately show ?thesis by blast
qed

lemma sublist_skip_body:
  assumes "clean a" and "\<forall>c \<in> set body. \<not> witness_char c"
    and "sublist a (body @ CHR '']'' # t)"
  shows "sublist a t"
  using assms(2,3)
proof (induction body)
  case Nil
  then show ?case
    using assms(1) sublist_skip_char [of "CHR '']''" a t]
    by (simp add: clean_iff clean_nonempty [OF assms(1)])
next
  case (Cons b bs)
  from Cons.prems(2) have "prefix a ((b # bs) @ CHR '']'' # t) \<or> sublist a (bs @ CHR '']'' # t)"
    by (simp add: sublist_Cons_right)
  moreover have "\<not> prefix a ((b # bs) @ CHR '']'' # t)"
  proof
    assume "prefix a ((b # bs) @ CHR '']'' # t)"
    then consider "prefix a (b # bs)" | us where "a = (b # bs) @ us" "prefix us (CHR '']'' # t)"
      unfolding prefix_append by blast
    then show False
    proof cases
      case 1
      then have "set a \<subseteq> set (b # bs)" by (rule set_mono_prefix)
      with Cons.prems(1) assms(1) show False by (auto simp: clean_iff)
    next
      case 2
      show False
      proof (cases us)
        case Nil
        with 2 Cons.prems(1) assms(1) show False by (auto simp: clean_iff)
      next
        case (Cons u us')
        with 2 have "u = CHR '']''" by simp
        with 2 Cons assms(1) show False by (auto simp: clean_iff)
      qed
    qed
  qed
  ultimately have "sublist a (bs @ CHR '']'' # t)" by blast
  with Cons.IH Cons.prems(1) show ?case by simp
qed

lemma sublist_skip_token:
  assumes "clean a" and "is_token new" and "sublist a (new @ t)"
  shows "sublist a t"
proof -
  from is_tokenD [OF assms(2)] obtain body where
    new: "new = CHR ''['' # body @ [CHR '']'']" and body: "\<forall>c \<in> set body. \<not> witness_char c"
    by blast
  from assms(3) have s: "sublist a (CHR ''['' # (body @ CHR '']'' # t))"
    by (simp add: new)
  from assms(1) have b: "CHR ''['' \<notin> set a"
    by (simp add: clean_iff)
  have "sublist a (body @ CHR '']'' # t)"
    by (rule sublist_skip_char [OF b clean_nonempty [OF assms(1)] s])
  with assms(1) body show ?thesis by (rule sublist_skip_body)
qed

lemma str_replace_from_Nil: "str_replace_from old new [] = []"
  by (subst str_replace_from.simps) simp

lemma str_replace_from_prefix:
  "old \<noteq> [] \<Longrightarrow> s \<noteq> [] \<Longrightarrow> prefix old s \<Longrightarrow>
     str_replace_from old new s = new @ str_replace_from old new (drop (length old) s)"
  by (subst str_replace_from.simps) simp

lemma str_replace_from_Cons:
  "old \<noteq> [] \<Longrightarrow> \<not> prefix old (c # s') \<Longrightarrow>
     str_replace_from old new (c # s') = c # str_replace_from old new s'"
  by (subst str_replace_from.simps) simp

lemma str_replace_from_old_Nil: "str_replace_from [] new s = s"
  by (subst str_replace_from.simps) simp

lemma prefix_str_replace_from:
  "CHR ''['' \<notin> set u \<Longrightarrow> is_token new \<Longrightarrow> prefix u (str_replace_from old new s) \<Longrightarrow> prefix u s"
proof (induction old new s arbitrary: u rule: str_replace_from.induct)
  case (1 old new s)
  show ?case
  proof (cases "s = [] \<or> old = []")
    case True
    with "1.prems" show ?thesis
      by (auto simp: str_replace_from_Nil str_replace_from_old_Nil)
  next
    case False
    show ?thesis
    proof (cases "prefix old s")
      case True
      from is_tokenD [OF "1.prems"(2)] obtain body where "new = CHR ''['' # body @ [CHR '']'']"
        by blast
      moreover from True False have "str_replace_from old new s =
          new @ str_replace_from old new (drop (length old) s)"
        by (simp add: str_replace_from_prefix)
      ultimately have "u = []"
        using "1.prems"(1,3) by (cases u) auto
      then show ?thesis by simp
    next
      case np: False
      from False obtain c s' where s: "s = c # s'" by (cases s) auto
      from False np have r: "str_replace_from old new s = c # str_replace_from old new s'"
        using s by (simp add: str_replace_from_Cons)
      show ?thesis
      proof (cases u)
        case Nil
        then show ?thesis by simp
      next
        case (Cons x u')
        with "1.prems" r have x: "x = c" and p: "prefix u' (str_replace_from old new s')"
          by simp_all
        from "1.prems"(1) Cons have "CHR ''['' \<notin> set u'" by simp
        with "1.IH"(2) [OF False np _ "1.prems"(2)] p s have "prefix u' s'" by simp
        with x Cons s show ?thesis by simp
      qed
    qed
  qed
qed

lemma sublist_str_replace_from:
  "clean a \<Longrightarrow> is_token new \<Longrightarrow> sublist a (str_replace_from old new s) \<Longrightarrow> sublist a s"
proof (induction old new s rule: str_replace_from.induct)
  case (1 old new s)
  show ?case
  proof (cases "s = [] \<or> old = []")
    case True
    with "1.prems" show ?thesis
      by (auto simp: str_replace_from_Nil str_replace_from_old_Nil)
  next
    case False
    show ?thesis
    proof (cases "prefix old s")
      case True
      with False "1.prems" have "sublist a (new @ str_replace_from old new (drop (length old) s))"
        by (simp add: str_replace_from_prefix)
      with "1.prems"(1,2) have "sublist a (str_replace_from old new (drop (length old) s))"
        by (rule sublist_skip_token)
      with "1.IH"(1) [OF False True "1.prems"(1,2)] have "sublist a (drop (length old) s)" by simp
      then show ?thesis
        using sublist_drop [of "length old" s] by (rule sublist_order.order_trans)
    next
      case np: False
      from False obtain c s' where s: "s = c # s'" by (cases s) auto
      from False np have r: "str_replace_from old new s = c # str_replace_from old new s'"
        using s by (simp add: str_replace_from_Cons)
      from "1.prems" r have "prefix a (str_replace_from old new s) \<or>
          sublist a (str_replace_from old new s')"
        by (simp add: sublist_Cons_right)
      then show ?thesis
      proof
        assume p: "prefix a (str_replace_from old new s)"
        from "1.prems"(1) have b: "CHR ''['' \<notin> set a" by (simp add: clean_iff)
        have "prefix a s"
          by (rule prefix_str_replace_from [OF b "1.prems"(2) p])
        then show ?thesis by (rule prefix_imp_sublist)
      next
        assume "sublist a (str_replace_from old new s')"
        with "1.IH"(2) [OF False np "1.prems"(1,2)] s have "sublist a s'" by simp
        then show ?thesis by (simp add: s sublist_Cons_right)
      qed
    qed
  qed
qed

lemma not_sublist_str_replace_from:
  "clean old \<Longrightarrow> is_token new \<Longrightarrow> \<not> sublist old (str_replace_from old new s)"
proof (induction old new s rule: str_replace_from.induct)
  case (1 old new s)
  have ne: "old \<noteq> []" using "1.prems"(1) by (rule clean_nonempty)
  show ?case
  proof (cases "s = []")
    case True
    with ne show ?thesis by (simp add: str_replace_from_Nil)
  next
    case False
    with ne have cond: "\<not> (s = [] \<or> old = [])" by simp
    show ?thesis
    proof (cases "prefix old s")
      case True
      show ?thesis
      proof
        assume "sublist old (str_replace_from old new s)"
        with cond True have "sublist old (new @ str_replace_from old new (drop (length old) s))"
          by (simp add: str_replace_from_prefix)
        with "1.prems" have "sublist old (str_replace_from old new (drop (length old) s))"
          by (rule sublist_skip_token)
        with "1.IH"(1) [OF cond True "1.prems"] show False by simp
      qed
    next
      case np: False
      from False obtain c s' where s: "s = c # s'" by (cases s) auto
      from cond np have r: "str_replace_from old new s = c # str_replace_from old new s'"
        using s by (simp add: str_replace_from_Cons)
      show ?thesis
      proof
        assume a: "sublist old (str_replace_from old new s)"
        with r have "prefix old (str_replace_from old new s) \<or>
            sublist old (str_replace_from old new s')"
          by (simp add: sublist_Cons_right)
        then show False
        proof
          assume p: "prefix old (str_replace_from old new s)"
          from "1.prems"(1) have b: "CHR ''['' \<notin> set old" by (simp add: clean_iff)
          have "prefix old s"
            by (rule prefix_str_replace_from [OF b "1.prems"(2) p])
          with np show False by simp
        next
          assume "sublist old (str_replace_from old new s')"
          with "1.IH"(2) [OF cond np "1.prems"] s show False by simp
        qed
      qed
    qed
  qed
qed


subsection \<open>What a pattern can match\<close>

lemma rmatch_Rep_sound:
  assumes "cur' \<in> set (rmatch ic (Rep items m n) cur)"
  shows "\<exists>g. snd cur = g @ snd cur' \<and> m \<le> length g \<and> (\<forall>c \<in> set g. in_class ic items c)"
proof -
  let ?k = "length (takeWhile (in_class ic items) (snd cur))"
  let ?k' = "case n of None \<Rightarrow> ?k | Some b \<Rightarrow> min ?k b"
  from assms have "cur' \<in> advance cur ` set [m..<Suc ?k']"
    by (simp add: Let_def del: upt_Suc upt.simps)
  then obtain j where jm: "m \<le> j" and jk: "j \<le> ?k'" and cur': "cur' = advance cur j"
    unfolding set_upt by auto
  have "?k' \<le> ?k"
    by (cases n) simp_all
  with jm jk have j: "m \<le> j" "j \<le> ?k"
    by simp_all
  have rest: "snd cur' = drop j (snd cur)"
    by (simp add: cur' advance_def)
  have "take j (snd cur) = take j (takeWhile (in_class ic items) (snd cur))"
    using j(2)
    by (metis append_take_drop_id takeWhile_dropWhile_id take_append length_take min.absorb2
        diff_is_0_eq take_0 append_Nil2 take_all order_refl takeWhile_eq_take)
  then have "set (take j (snd cur)) \<subseteq> set (takeWhile (in_class ic items) (snd cur))"
    by (metis set_take_subset)
  then have "\<forall>c \<in> set (take j (snd cur)). in_class ic items c"
    by (auto dest: set_takeWhileD)
  moreover have "length (take j (snd cur)) = j"
    using j(2) length_takeWhile_le [of "in_class ic items" "snd cur"] by simp
  ultimately show ?thesis
    using j(1) rest by (intro exI [of _ "take j (snd cur)"]) simp
qed

lemma rmatch_char_sound:
  assumes "cur' \<in> set (case snd cur of [] \<Rightarrow> [] | c # cs \<Rightarrow> if P c then [(Some c, cs)] else [])"
  shows "\<exists>c. snd cur = [c] @ snd cur' \<and> P c"
  using assms by (cases "snd cur") (auto split: if_splits)

lemma rmatch_sound:
  "cur' \<in> set (rmatch ic r cur) \<Longrightarrow>
     \<exists>g. snd cur = g @ snd cur' \<and> (avoids ic x r \<longrightarrow> x \<notin> set g) \<and>
         (consumes ic r \<longrightarrow> (\<exists>c \<in> set g. witness_char c))"
proof (induction r arbitrary: cur cur')
  case Eps
  then show ?case by simp
next
  case (Lit y)
  from Lit.prems have "cur' \<in> set (case snd cur of [] \<Rightarrow> []
      | c # cs \<Rightarrow> if in_class ic [C y] c then [(Some c, cs)] else [])"
    by simp
  from rmatch_char_sound [OF this] obtain c where
    c: "snd cur = [c] @ snd cur'" "in_class ic [C y] c"
    by blast
  then show ?case
    by (intro exI [of _ "[c]"]) (auto simp: witness_class_def)
next
  case (Cls items)
  from Cls.prems have "cur' \<in> set (case snd cur of [] \<Rightarrow> []
      | c # cs \<Rightarrow> if in_class ic items c then [(Some c, cs)] else [])"
    by simp
  from rmatch_char_sound [OF this] obtain c where
    c: "snd cur = [c] @ snd cur'" "in_class ic items c"
    by blast
  then show ?case
    by (intro exI [of _ "[c]"]) (auto simp: witness_class_def)
next
  case WordB
  then show ?case by (auto split: if_splits)
next
  case (Seq a b)
  from Seq.prems obtain mid where mid: "mid \<in> set (rmatch ic a cur)" and
    c: "cur' \<in> set (rmatch ic b mid)"
    by auto
  from Seq.IH(1) [OF mid] obtain g1 where g1: "snd cur = g1 @ snd mid"
    "avoids ic x a \<longrightarrow> x \<notin> set g1" "consumes ic a \<longrightarrow> (\<exists>c \<in> set g1. witness_char c)"
    by blast
  from Seq.IH(2) [OF c] obtain g2 where g2: "snd mid = g2 @ snd cur'"
    "avoids ic x b \<longrightarrow> x \<notin> set g2" "consumes ic b \<longrightarrow> (\<exists>c \<in> set g2. witness_char c)"
    by blast
  show ?case
    using g1 g2 by (intro exI [of _ "g1 @ g2"]) auto
next
  case (Alt a b)
  from Alt.prems have "cur' \<in> set (rmatch ic a cur) \<or> cur' \<in> set (rmatch ic b cur)"
    by simp
  then show ?case
  proof
    assume "cur' \<in> set (rmatch ic a cur)"
    from Alt.IH(1) [OF this] show ?thesis by auto
  next
    assume "cur' \<in> set (rmatch ic b cur)"
    from Alt.IH(2) [OF this] show ?thesis by auto
  qed
next
  case (Opt a)
  from Opt.prems have "cur' \<in> set (rmatch ic a cur) \<or> cur' = cur"
    by auto
  then show ?case
  proof
    assume "cur' \<in> set (rmatch ic a cur)"
    from Opt.IH [OF this] show ?thesis by auto
  next
    assume "cur' = cur"
    then show ?thesis by simp
  qed
next
  case (Rep items m n)
  from rmatch_Rep_sound [OF Rep.prems] obtain g where
    g: "snd cur = g @ snd cur'" "m \<le> length g" "\<forall>c \<in> set g. in_class ic items c"
    by blast
  have "avoids ic x (Rep items m n) \<longrightarrow> x \<notin> set g"
    using g(3) by auto
  moreover have "consumes ic (Rep items m n) \<longrightarrow> (\<exists>c \<in> set g. witness_char c)"
  proof
    assume c: "consumes ic (Rep items m n)"
    with g(2) have "g \<noteq> []" by auto
    then obtain y ys where "g = y # ys" by (cases g) auto
    with g(3) c show "\<exists>c \<in> set g. witness_char c" by (auto simp: witness_class_def)
  qed
  ultimately show ?case using g(1) by blast
qed

lemma rmatch_group:
  assumes "cur' \<in> set (rmatch ic r cur)"
    and "consumes ic r" and "avoids ic CHR ''['' r" and "avoids ic CHR '']'' r"
  shows "clean (take (length (snd cur) - length (snd cur')) (snd cur))"
proof -
  from rmatch_sound [OF assms(1), of "CHR ''[''"] assms(2,3) obtain g where
    g: "snd cur = g @ snd cur'" "CHR ''['' \<notin> set g" "\<exists>c \<in> set g. witness_char c"
    by blast
  from rmatch_sound [OF assms(1), of "CHR '']''"] assms(4) obtain g' where
    g': "snd cur = g' @ snd cur'" "CHR '']'' \<notin> set g'"
    by blast
  from g(1) g'(1) have "g' = g" by simp
  moreover from g(1) have "take (length (snd cur) - length (snd cur')) (snd cur) = g"
    by simp
  ultimately show ?thesis
    using g g' by (simp add: clean_iff)
qed

lemma rmatch_nonempty:
  assumes "consumes ic r"
  shows "rmatch ic r (p, []) = []"
proof (rule ccontr)
  assume "rmatch ic r (p, []) \<noteq> []"
  then obtain cur' where "cur' \<in> set (rmatch ic r (p, []))"
    by (cases "rmatch ic r (p, [])") auto
  from rmatch_sound [OF this, of "CHR ''[''"] assms show False
    by auto
qed

lemma finditer_from_clean:
  assumes "consumes ic r" and "avoids ic CHR ''['' r" and "avoids ic CHR '']'' r"
  shows "m \<in> set (finditer_from ic r p s skip pos) \<Longrightarrow> clean (m_group m)"
proof (induction s arbitrary: p skip pos)
  case Nil
  then show ?case
    by (simp add: rmatch_nonempty [OF assms(1)])
next
  case (Cons c cs)
  show ?case
  proof (cases "0 < skip")
    case True
    with Cons.prems have "m \<in> set (finditer_from ic r (Some c) cs (skip - 1) (pos + 1))"
      by simp
    then show ?thesis by (rule Cons.IH)
  next
    case False
    show ?thesis
    proof (cases "rmatch ic r (p, c # cs)")
      case Nil
      with False Cons.prems have "m \<in> set (finditer_from ic r (Some c) cs 0 (pos + 1))"
        by simp
      then show ?thesis by (rule Cons.IH)
    next
      case (Cons cur rest)
      let ?n = "length (c # cs) - length (snd cur)"
      from Cons False Cons.prems have
        "m = \<lparr> m_group = take ?n (c # cs), m_start = pos, m_end = pos + ?n \<rparr> \<or>
         m \<in> set (finditer_from ic r (Some c) cs (?n - 1) (pos + 1))"
        by (simp add: Let_def)
      then show ?thesis
      proof
        assume m: "m = \<lparr> m_group = take ?n (c # cs), m_start = pos, m_end = pos + ?n \<rparr>"
        from Cons have "cur \<in> set (rmatch ic r (p, c # cs))" by simp
        from rmatch_group [OF this assms] have "clean (take ?n (c # cs))"
          by simp
        with m show ?thesis by simp
      next
        assume "m \<in> set (finditer_from ic r (Some c) cs (?n - 1) (pos + 1))"
        then show ?thesis by (rule Cons.IH)
      qed
    qed
  qed
qed

lemma finditer_clean:
  assumes "consumes ic r" and "avoids ic CHR ''['' r" and "avoids ic CHR '']'' r"
    and "m \<in> set (finditer r s ic)"
  shows "clean (m_group m)"
  using assms(4) unfolding finditer_def by (rule finditer_from_clean [OF assms(1,2,3)])

subsection \<open>The patterns match clean strings only\<close>

lemma ord_char_of: "n < 256 \<Longrightarrow> ord (char_of n) = n"
  by (simp add: ord_def)

lemma is_digit_swapcase: "is_digit (swapcase c) = is_digit c"
  by (auto simp: swapcase_def is_digit_def Let_def ord_char_of)

lemma swapcase_at: "(swapcase c = CHR ''@'') = (c = CHR ''@'')"
proof -
  have "ord CHR ''@'' = 64" by (simp add: ord_def)
  moreover have "ord c = 64 \<Longrightarrow> c = CHR ''@''"
    by (metis calculation ord_def of_char_eq_iff)
  ultimately show ?thesis
    by (auto simp: swapcase_def Let_def ord_char_of dest!: arg_cong [where f = ord])
qed

lemma witness_class_digit: "witness_class ic [D]"
  by (auto simp: witness_class_def in_class_def witness_char_def is_digit_swapcase)

lemma witness_class_09: "witness_class ic [R CHR ''0'' CHR ''9'']"
proof -
  have "\<And>c. in_class ic [R CHR ''0'' CHR ''9''] c = in_class ic [D] c"
    by (simp add: in_class_def is_digit_def ord_def)
  with witness_class_digit [of ic] show ?thesis
    by (simp add: witness_class_def)
qed

lemma witness_class_at: "witness_class ic [C CHR ''@'']"
  by (auto simp: witness_class_def in_class_def witness_char_def swapcase_at)

lemma witness_class_az: "witness_class False [R CHR ''a'' CHR ''z'']"
proof -
  have "ord CHR ''a'' = 97" "ord CHR ''z'' = 122" by (simp_all add: ord_def)
  then show ?thesis
    by (auto simp: witness_class_def in_class_def witness_char_def)
qed

lemmas witness_classes = witness_class_digit witness_class_09 witness_class_at witness_class_az

lemma phi_patterns_consume:
  "consumes True ssn_pattern" "consumes True phone_pattern" "consumes True email_pattern"
  "consumes True date_birth_pattern" "consumes True mrn_pattern" "consumes True address_pattern"
  by (simp_all add: ssn_pattern_def phone_pattern_def email_pattern_def date_birth_pattern_def
      mrn_pattern_def address_pattern_def seqs_def witness_classes)

lemma name_patterns_consume:
  "consumes False name_pattern_1" "consumes False name_pattern_2" "consumes False name_pattern_3"
  by (simp_all add: name_pattern_1_def name_pattern_2_def name_pattern_3_def seqs_def
      witness_classes)

lemma phi_patterns_avoid:
  "avoids True CHR ''['' ssn_pattern" "avoids True CHR '']'' ssn_pattern"
  "avoids True CHR ''['' phone_pattern" "avoids True CHR '']'' phone_pattern"
  "avoids True CHR ''['' email_pattern" "avoids True CHR '']'' email_pattern"
  "avoids True CHR ''['' date_birth_pattern" "avoids True CHR '']'' date_birth_pattern"
  "avoids True CHR ''['' mrn_pattern" "avoids True CHR '']'' mrn_pattern"
  "avoids True CHR ''['' address_pattern" "avoids True CHR '']'' address_pattern"
  by code_simp+

lemma name_patterns_avoid:
  "avoids False CHR ''['' name_pattern_1" "avoids False CHR '']'' name_pattern_1"
  "avoids False CHR ''['' name_pattern_2" "avoids False CHR '']'' name_pattern_2"
  "avoids False CHR ''['' name_pattern_3" "avoids False CHR '']'' name_pattern_3"
  by code_simp+

subsection \<open>Every detection has a clean original and a token as replacement\<close>

lemma pattern_tokens:
  "is_token (dict_get replacements ''ssn'' ''[PHI_REDACTED]'')"
  "is_token (dict_get replacements ''phone'' ''[PHI_REDACTED]'')"
  "is_token (dict_get replacements ''email'' ''[PHI_REDACTED]'')"
  "is_token (dict_get replacements ''date_birth'' ''[PHI_REDACTED]'')"
  "is_token (dict_get replacements ''mrn'' ''[PHI_REDACTED]'')"
  "is_token (dict_get replacements ''address'' ''[PHI_REDACTED]'')"
  "is_token (dict_get simple_replacements ''ssn'' ''[PHI_REDACTED]'')"
  "is_token (dict_get simple_replacements ''phone'' ''[PHI_REDACTED]'')"
  "is_token (dict_get simple_replacements ''email'' ''[PHI_REDACTED]'')"
  "is_token (dict_get simple_replacements ''date_birth'' ''[PHI_REDACTED]'')"
  "is_token (dict_get simple_replacements ''mrn'' ''[PHI_REDACTED]'')"
  "is_token (dict_get simple_replacements ''address'' ''[PHI_REDACTED]'')"
  "is_token ''[NAME_REDACTED]''"
  by code_simp+

lemma detect_patterns_with_well_formed:
  assumes "repl = replacements \<or> repl = simple_replacements"
    and "d \<in> set (detect_patterns_with repl text)"
  shows "well_formed d"
proof -
  from assms(2) obtain ty pattern m where
    tp: "(ty, pattern) \<in> set phi_patterns" and m: "m \<in> set (finditer pattern text True)" and
    d: "original d = m_group m" "replacement d = dict_get repl ty ''[PHI_REDACTED]''"
    by (auto simp: detect_patterns_with_def)
  from tp have p: "consumes True pattern" "avoids True CHR ''['' pattern"
      "avoids True CHR '']'' pattern" and t: "is_token (dict_get repl ty ''[PHI_REDACTED]'')"
    using assms(1) by (auto simp: phi_patterns_def phi_patterns_consume phi_patterns_avoid
        pattern_tokens)
  from finditer_clean [OF p m] t d show ?thesis
    by (simp add: well_formed_def)
qed

lemma detect_names_well_formed:
  assumes "d \<in> set (detect_names text)"
  shows "well_formed d"
proof -
  from assms obtain pattern m where
    p: "pattern \<in> set name_patterns" and m: "m \<in> set (finditer pattern text False)" and
    d: "original d = m_group m" "replacement d = ''[NAME_REDACTED]''"
    by (auto simp: detect_names_def)
  from p have p: "consumes False pattern" "avoids False CHR ''['' pattern"
      "avoids False CHR '']'' pattern"
    by (auto simp: name_patterns_def name_patterns_consume name_patterns_avoid)
  from finditer_clean [OF p m] d show ?thesis
    by (simp add: well_formed_def pattern_tokens)
qed

subsection \<open>The replacement loop\<close>

lemma str_replace_keeps_absent:
  assumes "clean a" and "well_formed d" and "\<not> sublist a t"
  shows "\<not> sublist a (str_replace t (original d) (replacement d))"
proof -
  from assms(2) have "original d \<noteq> []" "is_token (replacement d)"
    by (auto simp: well_formed_def dest: clean_nonempty)
  with assms(1,3) show ?thesis
    by (auto simp: str_replace_def dest: sublist_str_replace_from)
qed

lemma str_replace_removes:
  assumes "well_formed d"
  shows "\<not> sublist (original d) (str_replace t (original d) (replacement d))"
proof -
  from assms have "clean (original d)" "is_token (replacement d)"
    by (auto simp: well_formed_def)
  then show ?thesis
    by (simp add: str_replace_def clean_nonempty not_sublist_str_replace_from)
qed

lemma apply_redactions_Cons:
  "apply_redactions (d # ds) t = apply_redactions ds (str_replace t (original d) (replacement d))"
  by (simp add: apply_redactions_def)

lemma apply_redactions_keeps_absent:
  "clean a \<Longrightarrow> \<forall>d \<in> set ds. well_formed d \<Longrightarrow> \<not> sublist a t \<Longrightarrow>
     \<not> sublist a (apply_redactions ds t)"
proof (induction ds arbitrary: t)
  case Nil
  then show ?case by (simp add: apply_redactions_def)
next
  case (Cons d ds)
  from Cons.prems have "\<not> sublist a (str_replace t (original d) (replacement d))"
    by (simp add: str_replace_keeps_absent)
  with Cons.IH Cons.prems(1,2) show ?case
    by (simp add: apply_redactions_Cons)
qed

lemma apply_redactions_removes:
  "\<forall>d \<in> set ds. well_formed d \<Longrightarrow> d \<in> set ds \<Longrightarrow>
     \<not> sublist (original d) (apply_redactions ds t)"
proof (induction ds arbitrary: t)
  case Nil
  then show ?case by simp
next
  case (Cons x xs)
  show ?case
  proof (cases "d = x")
    case True
    from Cons.prems(1) have wf: "well_formed x" "\<forall>d \<in> set xs. well_formed d"
      by simp_all
    from wf(1) have c: "clean (original x)" by (simp add: well_formed_def)
    have r: "\<not> sublist (original x) (str_replace t (original x) (replacement x))"
      using wf(1) by (rule str_replace_removes)
    have "\<not> sublist (original x)
        (apply_redactions xs (str_replace t (original x) (replacement x)))"
      by (rule apply_redactions_keeps_absent [OF c wf(2) r])
    with True show ?thesis by (simp add: apply_redactions_Cons)
  next
    case False
    with Cons.prems have "d \<in> set xs" "\<forall>d \<in> set xs. well_formed d"
      by simp_all
    with Cons.IH show ?thesis
      by (simp add: apply_redactions_Cons)
  qed
qed

lemma redact_phi_result:
  "detected_phi (redact_phi text) = detect_patterns text"
  "redacted_text (redact_phi text) = apply_redactions (detect_patterns text) text"
  by (simp_all add: redact_phi_def redact_phi_with_def detect_entities_def Let_def
      apply_redactions_def)

lemma simple_redact_phi_result:
  "detected_phi (simple_redact_phi text) =
     simple_detect_patterns text @
     detect_names (apply_redactions (simple_detect_patterns text) text)"
  "redacted_text (simple_redact_phi text) =
     apply_redactions (detect_names (apply_redactions (simple_detect_patterns text) text))
       (apply_redactions (simple_detect_patterns text) text)"
  by (simp_all add: simple_redact_phi_def simple_redact_phi_with_def Let_def)

text \<open>
  C1. For every text, no detection that \<open>redact_phi\<close> reports has its original
  substring left in the redacted text; this holds for \<open>PHIRedactor\<close> and for
  \<open>SimplePHIRedactor\<close>. (On these inputs the redactors never take the failure
  branch, whose result lists no detection.)
\<close>

theorem redact_phi_removes_originals:
  "(\<forall>d \<in> set (detected_phi (redact_phi text)).
      \<not> sublist (original d) (redacted_text (redact_phi text))) \<and>
   (\<forall>d \<in> set (detected_phi (simple_redact_phi text)).
      \<not> sublist (original d) (redacted_text (simple_redact_phi text)))"
proof -
  have wf: "\<forall>d \<in> set (detect_patterns text). well_formed d"
    by (auto simp: detect_patterns_def intro: detect_patterns_with_well_formed)
  have "\<forall>d \<in> set (detected_phi (redact_phi text)).
      \<not> sublist (original d) (redacted_text (redact_phi text))"
    unfolding redact_phi_result using wf apply_redactions_removes by blast
  moreover have "\<forall>d \<in> set (detected_phi (simple_redact_phi text)).
      \<not> sublist (original d) (redacted_text (simple_redact_phi text))"
  proof
    fix d
    let ?pd = "simple_detect_patterns text"
    let ?r1 = "apply_redactions ?pd text"
    let ?nd = "detect_names ?r1"
    assume "d \<in> set (detected_phi (simple_redact_phi text))"
    then have d: "d \<in> set ?pd \<or> d \<in> set ?nd"
      by (simp add: simple_redact_phi_result)
    have wfp: "\<forall>d \<in> set ?pd. well_formed d"
      by (auto simp: simple_detect_patterns_def intro: detect_patterns_with_well_formed)
    have wfn: "\<forall>d \<in> set ?nd. well_formed d"
      by (auto intro: detect_names_well_formed)
    from d have "\<not> sublist (original d) (apply_redactions ?nd ?r1)"
    proof
      assume dp: "d \<in> set ?pd"
      with wfp have c: "clean (original d)" by (simp add: well_formed_def)
      from wfp dp have r: "\<not> sublist (original d) ?r1"
        by (rule apply_redactions_removes)
      show ?thesis
        by (rule apply_redactions_keeps_absent [OF c wfn r])
    next
      assume "d \<in> set ?nd"
      with wfn show ?thesis by (rule apply_redactions_removes)
    qed
    then show "\<not> sublist (original d) (redacted_text (simple_redact_phi text))"
      by (simp add: simple_redact_phi_result)
  qed
  ultimately show ?thesis by blast
qed

theorem redact_phi_removes_originals_witness:
  "map original (detected_phi (redact_phi ''SSN 123-45-6789, patient reports headache 7/10'')) =
     [''123-45-6789''] \<and>
   \<not> sublist ''123-45-6789''
     (redacted_text (redact_phi ''SSN 123-45-6789, patient reports headache 7/10'')) \<and>
   map original (detected_phi (simple_redact_phi ''John Smith 123-45-6789'')) =
     [''123-45-6789'', ''John Smith''] \<and>
   \<not> sublist ''123-45-6789'' (redacted_text (simple_redact_phi ''John Smith 123-45-6789'')) \<and>
   \<not> sublist ''John Smith'' (redacted_text (simple_redact_phi ''John Smith 123-45-6789''))"
  using redact_phi_removes_originals [of "''SSN 123-45-6789, patient reports headache 7/10''"]
    redact_phi_removes_originals [of "''John Smith 123-45-6789''"]
  by (simp add: redact_phi_ssn_scenario simple_redact_phi_name_and_ssn)

end
